theory Spec2Isabelle
  imports Main "HOL-Library.Word"
begin

section \<open>Strings of the language\<close>

text \<open>
  A string of the source language is a finite sequence of 16-bit code units. A literal
  of the source that is pure ASCII is written \<open>js ''...''\<close>; code units beyond ASCII are
  written as numerals.
\<close>

type_synonym code_unit = "16 word"
type_synonym jsstring = "code_unit list"

definition js :: "string \<Rightarrow> jsstring" where
  "js s = map of_char s"

datatype error = URIError | HostError

section \<open>The built-in \<open>encodeURIComponent\<close>\<close>

text \<open>
  \<open>main.ts\<close> line 4 calls the language's built-in \<open>encodeURIComponent\<close>. Its model
  follows the language standard (ECMA-262, abstract operations \<open>Encode\<close> and
  \<open>CodePointAt\<close>): a code unit of the unescaped set is copied; anything else is read as
  a code point (one code unit, or a surrogate pair), an unpaired surrogate throws
  \<open>URIError\<close>, and the code point's UTF-8 octets are each written as \<open>%\<close> and two
  uppercase hexadecimal digits.
\<close>

definition alwaysUnescaped :: jsstring where
  "alwaysUnescaped =
     js ''ABCDEFGHIJKLMNOPQRSTUVWXYZabcdefghijklmnopqrstuvwxyz0123456789_''
     @ js ''-.!~*'' @ [0x27] @ js ''()''"

definition isLeadingSurrogate :: "code_unit \<Rightarrow> bool" where
  "isLeadingSurrogate c \<longleftrightarrow> 0xD800 \<le> c \<and> c \<le> 0xDBFF"

definition isTrailingSurrogate :: "code_unit \<Rightarrow> bool" where
  "isTrailingSurrogate c \<longleftrightarrow> 0xDC00 \<le> c \<and> c \<le> 0xDFFF"

definition UTF16SurrogatePairToCodePoint :: "code_unit \<Rightarrow> code_unit \<Rightarrow> nat" where
  "UTF16SurrogatePairToCodePoint lead trail =
     (unat lead - 0xD800) * 0x400 + (unat trail - 0xDC00) + 0x10000"

text \<open>
  \<open>CodePointAt first rest\<close> reads the code point at a position of a string, given the
  code unit \<open>first\<close> at that position and the code units \<open>rest\<close> after it. It returns the
  code point, the number of code units read and whether it is an unpaired surrogate.
\<close>

definition CodePointAt :: "code_unit \<Rightarrow> jsstring \<Rightarrow> nat \<times> nat \<times> bool" where
  "CodePointAt first rest =
     (if \<not> isLeadingSurrogate first \<and> \<not> isTrailingSurrogate first then (unat first, 1, False)
      else if isTrailingSurrogate first then (unat first, 1, True)
      else case rest of
        [] \<Rightarrow> (unat first, 1, True)
      | second # _ \<Rightarrow>
          if \<not> isTrailingSurrogate second then (unat first, 1, True)
          else (UTF16SurrogatePairToCodePoint first second, 2, False))"

definition utf8 :: "nat \<Rightarrow> nat list" where
  "utf8 cp =
     (if cp < 0x80 then [cp]
      else if cp < 0x800 then [0xC0 + cp div 0x40, 0x80 + cp mod 0x40]
      else if cp < 0x10000 then
        [0xE0 + cp div 0x1000, 0x80 + cp div 0x40 mod 0x40, 0x80 + cp mod 0x40]
      else
        [0xF0 + cp div 0x40000, 0x80 + cp div 0x1000 mod 0x40,
         0x80 + cp div 0x40 mod 0x40, 0x80 + cp mod 0x40])"

definition hexDigit :: "nat \<Rightarrow> code_unit" where
  "hexDigit n = js ''0123456789ABCDEF'' ! n"

definition percentOctet :: "nat \<Rightarrow> jsstring" where
  "percentOctet octet = [of_char CHR ''%'', hexDigit (octet div 16), hexDigit (octet mod 16)]"

fun Encode :: "jsstring \<Rightarrow> jsstring \<Rightarrow> error + jsstring" where
  "Encode [] extraUnescaped = Inr []"
| "Encode (C # rest) extraUnescaped =
     (if C \<in> set (alwaysUnescaped @ extraUnescaped)
      then map_sum id ((#) C) (Encode rest extraUnescaped)
      else case CodePointAt C rest of (cp, count, unpaired) \<Rightarrow>
        if unpaired then Inl URIError
        else map_sum id ((@) (concat (map percentOctet (utf8 cp))))
               (Encode (drop (count - 1) rest) extraUnescaped))"

definition encodeURIComponent :: "jsstring \<Rightarrow> error + jsstring" where
  "encodeURIComponent uriComponent = Encode uriComponent []"

section \<open>The host and the click handler\<close>

text \<open>
  A tab as the handler reads it: only its \<open>url\<close>, which may be absent. The host is what
  one invocation of the handler observes: the result of
  \<open>browser.tabs.query({active: true, currentWindow: true})\<close> (a rejection or a list of
  tabs) and, for each address, whether \<open>browser.tabs.create\<close> rejects.
\<close>

record tab =
  url :: "jsstring option"

record host =
  tabs_query :: "error + tab list"
  tabs_create :: "jsstring \<Rightarrow> error option"

datatype outcome = Resolved | Rejected error

text \<open>\<open>const [tab] = ...\<close>: the first element, undefined for an empty list.\<close>

definition first_of :: "'a list \<Rightarrow> 'a option" where
  "first_of xs = (case xs of [] \<Rightarrow> None | x # _ \<Rightarrow> Some x)"

text \<open>\<open>tab?.url\<close> as a condition: the address when the tab is defined and its address
  is a non-empty string.\<close>

definition truthy_url :: "tab option \<Rightarrow> jsstring option" where
  "truthy_url t =
     (case t of
        None \<Rightarrow> None
      | Some t' \<Rightarrow> (case url t' of None \<Rightarrow> None | Some u \<Rightarrow> if u = [] then None else Some u))"

text \<open>
  Lines 3 to 7 of \<open>main.ts\<close>. The result is how the handler's promise settles and the
  list of addresses passed to \<open>browser.tabs.create\<close>, in order.
\<close>

definition share_tab :: "host \<Rightarrow> tab option \<Rightarrow> outcome \<times> jsstring list" where
  "share_tab h t =
     (case truthy_url t of
        None \<Rightarrow> (Resolved, [])
      | Some u \<Rightarrow>
          (case encodeURIComponent u of
             Inl e \<Rightarrow> (Rejected e, [])
           | Inr encodedUrl \<Rightarrow>
               (let targetUrl = js ''https://curaq.pages.dev/share?url='' @ encodedUrl
                in (case tabs_create h targetUrl of None \<Rightarrow> Resolved | Some e \<Rightarrow> Rejected e,
                    [targetUrl]))))"

definition click_handler :: "host \<Rightarrow> outcome \<times> jsstring list" where
  "click_handler h =
     (case tabs_query h of
        Inl e \<Rightarrow> (Rejected e, [])
      | Inr tabs \<Rightarrow> share_tab h (first_of tabs))"

section \<open>Registration of the handler\<close>

text \<open>
  The document maps an id to its element; an element carries its registered listeners
  (event type and callback). Line 1 of \<open>main.ts\<close> looks \<open>share-btn\<close> up and, through
  \<open>?.\<close>, registers the handler only when the element exists.
\<close>

type_synonym listener = "host \<Rightarrow> outcome \<times> jsstring list"

record element =
  listeners :: "(string \<times> listener) list"

type_synonym document = "string \<rightharpoonup> element"

definition getElementById :: "document \<Rightarrow> string \<Rightarrow> element option" where
  "getElementById doc i = doc i"

definition addEventListener :: "string \<Rightarrow> listener \<Rightarrow> element \<Rightarrow> element" where
  "addEventListener ty cb el = el\<lparr>listeners := listeners el @ [(ty, cb)]\<rparr>"

definition main_script :: "document \<Rightarrow> error + document" where
  "main_script doc =
     (case getElementById doc ''share-btn'' of
        None \<Rightarrow> Inr doc
      | Some el \<Rightarrow> Inr (doc(''share-btn'' \<mapsto> addEventListener ''click'' click_handler el)))"

text \<open>A click on the element with id \<open>i\<close>: every \<open>click\<close> listener of the element runs,
  in order of registration; the result is the addresses they asked the host to open.\<close>

definition click :: "document \<Rightarrow> string \<Rightarrow> host \<Rightarrow> jsstring list" where
  "click doc i h =
     (case doc i of
        None \<Rightarrow> []
      | Some el \<Rightarrow> concat (map (\<lambda>(ty, cb). if ty = ''click'' then snd (cb h) else []) (listeners el)))"

fun clicks :: "document \<Rightarrow> (string \<times> host) list \<Rightarrow> jsstring list" where
  "clicks doc [] = []"
| "clicks doc ((i, h) # cs) = click doc i h @ clicks doc cs"

definition no_listeners :: "document \<Rightarrow> bool" where
  "no_listeners doc \<longleftrightarrow> (\<forall>el \<in> ran doc. listeners el = [])"

section \<open>Well-formed strings\<close>

text \<open>
  A string is well formed when every surrogate code unit is part of a pair: a leading
  surrogate directly followed by a trailing one (the language's
  \<open>String.prototype.isWellFormed\<close>).
\<close>

fun isWellFormed :: "jsstring \<Rightarrow> bool" where
  "isWellFormed [] = True"
| "isWellFormed [c] = (\<not> isLeadingSurrogate c \<and> \<not> isTrailingSurrogate c)"
| "isWellFormed (c # d # rest) =
     (if isLeadingSurrogate c then isTrailingSurrogate d \<and> isWellFormed rest
      else \<not> isTrailingSurrogate c \<and> isWellFormed (d # rest))"

section \<open>Reading the shared address back\<close>

text \<open>
  The receiving page is not part of the repository. What the specification calls
  "decoding the \<open>url\<close> query parameter of the produced target address" is defined here
  from the specification's words, to be compared with the encoder above: the query of an
  address is what stands between the first \<open>?\<close> and the fragment, it is split at \<open>&\<close>
  into pairs of a name and a value around \<open>=\<close>, and the value is percent-decoded into
  octets that are read as strict UTF-8 (no overlong form, no surrogate, nothing above \<open>0x10FFFF\<close>).
\<close>

definition spec_url_query :: "jsstring \<Rightarrow> jsstring" where
  "spec_url_query address =
     drop 1 (dropWhile (\<lambda>c. c \<noteq> of_char CHR ''?'')
       (takeWhile (\<lambda>c. c \<noteq> of_char CHR ''#'') address))"

fun split_on :: "'a \<Rightarrow> 'a list \<Rightarrow> 'a list list" where
  "split_on sep [] = [[]]"
| "split_on sep (x # xs) =
     (if x = sep then [] # split_on sep xs
      else (case split_on sep xs of [] \<Rightarrow> [[x]] | p # ps \<Rightarrow> (x # p) # ps))"

definition spec_query_param :: "jsstring \<Rightarrow> jsstring \<Rightarrow> jsstring option" where
  "spec_query_param name address =
     map_of
       (map (\<lambda>p. (takeWhile (\<lambda>c. c \<noteq> of_char CHR ''='') p,
                  drop 1 (dropWhile (\<lambda>c. c \<noteq> of_char CHR ''='') p)))
          (split_on (of_char CHR ''&'') (spec_url_query address)))
       name"

definition unhex :: "code_unit \<Rightarrow> nat option" where
  "unhex c =
     (if 0x30 \<le> c \<and> c \<le> 0x39 then Some (unat c - 0x30)
      else if 0x41 \<le> c \<and> c \<le> 0x46 then Some (unat c - 0x37)
      else if 0x61 \<le> c \<and> c \<le> 0x66 then Some (unat c - 0x57)
      else None)"

fun spec_percent_decode :: "jsstring \<Rightarrow> nat list option" where
  "spec_percent_decode [] = Some []"
| "spec_percent_decode (c # cs) =
     (if c = of_char CHR ''%'' then
        (case cs of
           h # l # cs' \<Rightarrow>
             (case (unhex h, unhex l) of
                (Some a, Some b) \<Rightarrow> map_option ((#) (16 * a + b)) (spec_percent_decode cs')
              | _ \<Rightarrow> None)
         | _ \<Rightarrow> None)
      else if c < 0x80 then map_option ((#) (unat c)) (spec_percent_decode cs)
      else None)"

definition isContinuation :: "nat \<Rightarrow> bool" where
  "isContinuation b \<longleftrightarrow> 0x80 \<le> b \<and> b < 0xC0"

fun spec_utf8_decode :: "nat list \<Rightarrow> nat list option" where
  "spec_utf8_decode [] = Some []"
| "spec_utf8_decode (b0 # bs) =
     (if b0 < 0x80 then map_option ((#) b0) (spec_utf8_decode bs)
      else if 0xC2 \<le> b0 \<and> b0 < 0xE0 then
        (case bs of
           b1 # bs' \<Rightarrow>
             if isContinuation b1
             then map_option ((#) ((b0 - 0xC0) * 0x40 + (b1 - 0x80))) (spec_utf8_decode bs')
             else None
         | _ \<Rightarrow> None)
      else if 0xE0 \<le> b0 \<and> b0 < 0xF0 then
        (case bs of
           b1 # b2 # bs' \<Rightarrow>
             (let cp = (b0 - 0xE0) * 0x1000 + (b1 - 0x80) * 0x40 + (b2 - 0x80)
              in if isContinuation b1 \<and> isContinuation b2 \<and> 0x800 \<le> cp
                    \<and> \<not> (0xD800 \<le> cp \<and> cp \<le> 0xDFFF)
                 then map_option ((#) cp) (spec_utf8_decode bs') else None)
         | _ \<Rightarrow> None)
      else if 0xF0 \<le> b0 \<and> b0 < 0xF5 then
        (case bs of
           b1 # b2 # b3 # bs' \<Rightarrow>
             (let cp = (b0 - 0xF0) * 0x40000 + (b1 - 0x80) * 0x1000
                       + (b2 - 0x80) * 0x40 + (b3 - 0x80)
              in if isContinuation b1 \<and> isContinuation b2 \<and> isContinuation b3
                    \<and> 0x10000 \<le> cp \<and> cp \<le> 0x10FFFF
                 then map_option ((#) cp) (spec_utf8_decode bs') else None)
         | _ \<Rightarrow> None)
      else None)"

definition UTF16EncodeCodePoint :: "nat \<Rightarrow> jsstring" where
  "UTF16EncodeCodePoint cp =
     (if cp \<le> 0xFFFF then [of_nat cp]
      else [of_nat ((cp - 0x10000) div 0x400 + 0xD800),
            of_nat ((cp - 0x10000) mod 0x400 + 0xDC00)])"

definition spec_decode_component :: "jsstring \<Rightarrow> jsstring option" where
  "spec_decode_component s =
     (case spec_percent_decode s of
        None \<Rightarrow> None
      | Some octets \<Rightarrow>
          (case spec_utf8_decode octets of
             None \<Rightarrow> None
           | Some cps \<Rightarrow> Some (concat (map UTF16EncodeCodePoint cps))))"

section \<open>Auxiliary notions\<close>

text \<open>
  The address read back from a target address; a Unicode scalar value; an encoded value
  that holds neither \<open>#\<close> nor \<open>&\<close>; and the concatenation of two results of the
  encoder around a middle piece, an error on either side being the result.
\<close>

definition spec_shared_url :: "jsstring \<Rightarrow> jsstring option" where
  "spec_shared_url address =
     (case spec_query_param (js ''url'') address of
        None \<Rightarrow> None
      | Some v \<Rightarrow> spec_decode_component v)"

definition splice :: "error + jsstring \<Rightarrow> jsstring \<Rightarrow> error + jsstring \<Rightarrow> error + jsstring" where
  "splice a m b =
     (case a of
        Inl e \<Rightarrow> Inl e
      | Inr x \<Rightarrow> (case b of Inl e \<Rightarrow> Inl e | Inr y \<Rightarrow> Inr (x @ m @ y)))"

definition isScalarValue :: "nat \<Rightarrow> bool" where
  "isScalarValue cp \<longleftrightarrow> cp \<le> 0x10FFFF \<and> \<not> (0xD800 \<le> cp \<and> cp \<le> 0xDFFF)"

definition query_safe :: "jsstring \<Rightarrow> bool" where
  "query_safe e \<longleftrightarrow> 0x23 \<notin> set e \<and> 0x26 \<notin> set e"

section \<open>Properties of the encoder\<close>

lemma unescaped_props:
  assumes "C \<in> set alwaysUnescaped"
  shows "C < 0x80" and "C \<noteq> 0x25" and "C \<noteq> 0x23" and "C \<noteq> 0x26" and "C \<noteq> 0x3D"
    and "C \<noteq> 0x3F" and "\<not> isLeadingSurrogate C" and "\<not> isTrailingSurrogate C"
  using assms
  unfolding alwaysUnescaped_def js_def isLeadingSurrogate_def isTrailingSurrogate_def
  by auto

lemma nibble_cases:
  assumes "n < (16::nat)"
  shows "n \<in> {15, 14, 13, 12, 11, 10, 9, 8, 7, 6, 5, 4, 3, 2, 1, 0}"
  using assms by simp arith

lemma unhex_hexDigit:
  assumes "n < 16"
  shows "unhex (hexDigit n) = Some n"
  using nibble_cases [OF assms]
  by (auto simp: hexDigit_def js_def unhex_def)

lemma hexDigit_props:
  assumes "n < 16"
  shows "hexDigit n \<noteq> 0x23" and "hexDigit n \<noteq> 0x26"
  using nibble_cases [OF assms]
  by (auto simp: hexDigit_def js_def)

lemma Encode_unescaped:
  assumes "C \<in> set alwaysUnescaped"
  shows "Encode (C # rest) [] = map_sum id ((#) C) (Encode rest [])"
  using assms by simp

lemma Encode_single:
  assumes "C \<notin> set alwaysUnescaped" and "\<not> isLeadingSurrogate C" and "\<not> isTrailingSurrogate C"
  shows "Encode (C # rest) [] =
           map_sum id ((@) (concat (map percentOctet (utf8 (unat C))))) (Encode rest [])"
  using assms by (simp add: CodePointAt_def)

lemma lead_not_trail: "isLeadingSurrogate C \<Longrightarrow> \<not> isTrailingSurrogate C"
  unfolding isLeadingSurrogate_def isTrailingSurrogate_def
  by (simp add: word_le_nat_alt)

lemma Encode_pair:
  assumes "isLeadingSurrogate C" and "isTrailingSurrogate D"
  shows "Encode (C # D # rest) [] =
           map_sum id ((@) (concat (map percentOctet (utf8 (UTF16SurrogatePairToCodePoint C D)))))
             (Encode rest [])"
  using assms unescaped_props(7) [of C] lead_not_trail [of C]
  by (auto simp: CodePointAt_def)

lemma Encode_lone_trail:
  assumes "isTrailingSurrogate C"
  shows "Encode (C # rest) [] = Inl URIError"
  using assms unescaped_props(8) [of C]
  by (auto simp: CodePointAt_def)

lemma Encode_lone_lead_end:
  assumes "isLeadingSurrogate C"
  shows "Encode [C] [] = Inl URIError"
  using assms unescaped_props(7) [of C] lead_not_trail [of C]
  by (auto simp: CodePointAt_def)

lemma Encode_lone_lead:
  assumes "isLeadingSurrogate C" and "\<not> isTrailingSurrogate D"
  shows "Encode (C # D # rest) [] = Inl URIError"
  using assms unescaped_props(7) [of C] lead_not_trail [of C]
  by (auto simp: CodePointAt_def)

declare Encode.simps(2) [simp del]

lemma Encode_succeeds_iff: "(\<exists>e. Encode s [] = Inr e) \<longleftrightarrow> isWellFormed s"
proof (induction s rule: isWellFormed.induct)
  case 1
  show ?case by simp
next
  case (2 c)
  show ?case
  proof (cases "isLeadingSurrogate c")
    case True
    then show ?thesis by (simp add: Encode_lone_lead_end)
  next
    case nl: False
    show ?thesis
    proof (cases "isTrailingSurrogate c")
      case True
      then show ?thesis by (simp add: Encode_lone_trail)
    next
      case False
      with nl show ?thesis
        by (cases "c \<in> set alwaysUnescaped") (simp_all add: Encode_single Encode_unescaped)
    qed
  qed
next
  case (3 c d rest)
  show ?case
  proof (cases "isLeadingSurrogate c")
    case True
    show ?thesis
    proof (cases "isTrailingSurrogate d")
      case True
      with \<open>isLeadingSurrogate c\<close> 3 show ?thesis
        by (cases "Encode rest []") (simp_all add: Encode_pair)
    next
      case False
      with \<open>isLeadingSurrogate c\<close> show ?thesis
        by (simp add: Encode_lone_lead)
    qed
  next
    case nl: False
    show ?thesis
    proof (cases "isTrailingSurrogate c")
      case True
      with nl show ?thesis by (simp add: Encode_lone_trail)
    next
      case False
      with nl 3 show ?thesis
        by (cases "c \<in> set alwaysUnescaped"; cases "Encode (d # rest) []")
           (simp_all add: Encode_single Encode_unescaped)
    qed
  qed
qed

lemma percent_decode_unescaped:
  assumes "C \<in> set alwaysUnescaped"
  shows "spec_percent_decode (C # e) = map_option ((@) [unat C]) (spec_percent_decode e)"
  using unescaped_props(1,2) [OF assms]
  by (cases "spec_percent_decode e") simp_all

lemma percent_decode_octet:
  assumes "b < 256"
  shows "spec_percent_decode (percentOctet b @ e) = map_option ((#) b) (spec_percent_decode e)"
proof -
  have hi: "b div 16 < 16" and lo: "b mod 16 < 16"
    using assms by simp_all
  show ?thesis
    by (simp add: percentOctet_def unhex_hexDigit [OF hi] unhex_hexDigit [OF lo])
qed

lemma percent_decode_octets:
  assumes "\<forall>b \<in> set bs. b < 256"
  shows "spec_percent_decode (concat (map percentOctet bs) @ e) =
           map_option ((@) bs) (spec_percent_decode e)"
  using assms
proof (induction bs)
  case Nil
  show ?case by (cases "spec_percent_decode e") simp_all
next
  case (Cons b bs)
  then show ?case
    by (cases "spec_percent_decode e")
       (simp_all add: percent_decode_octet del: spec_percent_decode.simps)
qed

lemma utf8_octets:
  assumes "cp \<le> 0x10FFFF"
  shows "\<forall>b \<in> set (utf8 cp). b < 256"
  using assms by (auto simp: utf8_def)

lemma query_safe_percent:
  assumes "\<forall>b \<in> set bs. b < 256"
  shows "query_safe (concat (map percentOctet bs))"
  using assms
proof (induction bs)
  case Nil
  show ?case by (simp add: query_safe_def)
next
  case (Cons b bs)
  from Cons.prems have b: "b < 256"
    by simp
  have hi: "b div 16 < 16" and lo: "b mod 16 < 16"
    using b by simp_all
  show ?case
    using Cons hexDigit_props(1,2) [OF hi] hexDigit_props(1,2) [OF lo]
    by (auto simp: query_safe_def percentOctet_def)
qed

lemma utf8_split3: fixes cp :: nat
  shows "cp div 0x1000 * 0x1000 + cp div 0x40 mod 0x40 * 0x40 + cp mod 0x40 = cp"
proof -
  define q where "q = cp div 0x40"
  define a where "a = q div 0x40"
  define b where "b = q mod 0x40"
  define r where "r = cp mod 0x40"
  have 1: "cp div 0x1000 = a"
    unfolding a_def q_def by (simp add: div_mult2_eq)
  have 2: "q = a * 0x40 + b"
    unfolding a_def b_def by simp
  have 3: "cp = q * 0x40 + r"
    unfolding q_def r_def by simp
  have "a * 0x1000 + b * 0x40 + r = cp"
    unfolding 3 2 by simp
  then show ?thesis
    unfolding 1 b_def r_def q_def .
qed

lemma utf8_split4: fixes cp :: nat
  shows "cp div 0x40000 * 0x40000 + cp div 0x1000 mod 0x40 * 0x1000
         + cp div 0x40 mod 0x40 * 0x40 + cp mod 0x40 = cp"
proof -
  define q where "q = cp div 0x1000"
  define a where "a = q div 0x40"
  define b where "b = q mod 0x40"
  have 1: "cp div 0x40000 = a"
    unfolding a_def q_def by (simp add: div_mult2_eq)
  have 2: "q = a * 0x40 + b"
    unfolding a_def b_def by simp
  have "a * 0x40000 + b * 0x1000 = q * 0x1000"
    unfolding 2 by simp
  then have "cp div 0x40000 * 0x40000 + cp div 0x1000 mod 0x40 * 0x1000 = cp div 0x1000 * 0x1000"
    unfolding 1 b_def q_def .
  then show ?thesis using utf8_split3 [of cp] by simp
qed

lemma utf8_decode_utf8:
  assumes "isScalarValue cp"
  shows "spec_utf8_decode (utf8 cp @ bs) = map_option ((#) cp) (spec_utf8_decode bs)"
proof -
  consider "cp < 0x80" | "0x80 \<le> cp" "cp < 0x800" | "0x800 \<le> cp" "cp < 0x10000"
    | "0x10000 \<le> cp"
    by linarith
  then show ?thesis
  proof cases
    case 1
    then show ?thesis by (simp add: utf8_def)
  next
    case 2
    have "0xC2 \<le> 0xC0 + cp div 0x40" "0xC0 + cp div 0x40 < 0xE0"
      using 2 by linarith+
    with 2 show ?thesis by (simp add: utf8_def isContinuation_def)
  next
    case 3
    have "cp div 0x1000 < 0x10"
      using 3 by linarith
    with 3 assms utf8_split3 [of cp] show ?thesis
      by (simp add: utf8_def isContinuation_def isScalarValue_def)
  next
    case 4
    have "cp div 0x40000 < 5"
      using 4 assms unfolding isScalarValue_def by linarith
    with 4 assms utf8_split4 [of cp] show ?thesis
      by (simp add: utf8_def isContinuation_def isScalarValue_def)
  qed
qed

lemma single_unit_scalar:
  assumes "\<not> isLeadingSurrogate C" and "\<not> isTrailingSurrogate C"
  shows "isScalarValue (unat C)" and "UTF16EncodeCodePoint (unat C) = [C]"
proof -
  have lt: "unat C < 0x10000"
    using unsigned_less [of C, where ?'a = nat] by simp
  show "isScalarValue (unat C)"
    using assms lt
    unfolding isScalarValue_def isLeadingSurrogate_def isTrailingSurrogate_def word_le_nat_alt
    by simp linarith
  show "UTF16EncodeCodePoint (unat C) = [C]"
    using lt by (simp add: UTF16EncodeCodePoint_def)
qed

lemma surrogate_pair_scalar:
  assumes "isLeadingSurrogate C" and "isTrailingSurrogate D"
  shows "isScalarValue (UTF16SurrogatePairToCodePoint C D)"
    and "UTF16EncodeCodePoint (UTF16SurrogatePairToCodePoint C D) = [C, D]"
proof -
  define c where "c = unat C - 0xD800"
  define d where "d = unat D - 0xDC00"
  have bC: "0xD800 \<le> unat C" "unat C \<le> 0xDBFF"
    using assms(1) unfolding isLeadingSurrogate_def word_le_nat_alt by simp_all
  have bD: "0xDC00 \<le> unat D" "unat D \<le> 0xDFFF"
    using assms(2) unfolding isTrailingSurrogate_def word_le_nat_alt by simp_all
  have C: "unat C = c + 0xD800" and c: "c < 0x400"
    using bC unfolding c_def by linarith+
  have D: "unat D = d + 0xDC00" and d: "d < 0x400"
    using bD unfolding d_def by linarith+
  have cp: "UTF16SurrogatePairToCodePoint C D = c * 0x400 + d + 0x10000"
    by (simp add: UTF16SurrogatePairToCodePoint_def c_def d_def)
  show "isScalarValue (UTF16SurrogatePairToCodePoint C D)"
    using c d unfolding cp isScalarValue_def by simp
  have "of_nat (c + 0xD800) = C" "of_nat (d + 0xDC00) = D"
    using C D by (metis of_nat_unat ucast_id)+
  then show "UTF16EncodeCodePoint (UTF16SurrogatePairToCodePoint C D) = [C, D]"
    using c d unfolding cp UTF16EncodeCodePoint_def by simp
qed

lemma single_unit_chunk:
  assumes "\<not> isLeadingSurrogate C" and "\<not> isTrailingSurrogate C"
  obtains chunk where "\<And>rest. Encode (C # rest) [] = map_sum id ((@) chunk) (Encode rest [])"
    and "\<And>e. spec_percent_decode (chunk @ e) =
               map_option ((@) (utf8 (unat C))) (spec_percent_decode e)"
    and "query_safe chunk"
proof (cases "C \<in> set alwaysUnescaped")
  case True
  have "unat C < 0x80"
    using unescaped_props(1) [OF True] by (simp add: word_less_nat_alt)
  then have u: "utf8 (unat C) = [unat C]"
    by (simp add: utf8_def)
  show ?thesis
  proof (rule that [of "[C]"])
    show "Encode (C # rest) [] = map_sum id ((@) [C]) (Encode rest [])" for rest
      by (cases "Encode rest []") (simp_all add: Encode_unescaped [OF True])
    show "spec_percent_decode ([C] @ e) = map_option ((@) (utf8 (unat C))) (spec_percent_decode e)"
      for e
      unfolding u using percent_decode_unescaped [OF True, of e] by simp
    show "query_safe [C]"
      using unescaped_props(3,4) [OF True] by (auto simp: query_safe_def)
  qed
next
  case False
  have "unat C \<le> 0x10FFFF"
    using unsigned_less [of C, where ?'a = nat] by simp
  then have oct: "\<forall>b \<in> set (utf8 (unat C)). b < 256"
    by (rule utf8_octets)
  show ?thesis
  proof (rule that [of "concat (map percentOctet (utf8 (unat C)))"])
    show "Encode (C # rest) [] =
            map_sum id ((@) (concat (map percentOctet (utf8 (unat C))))) (Encode rest [])" for rest
      by (rule Encode_single [OF False assms])
    show "spec_percent_decode (concat (map percentOctet (utf8 (unat C))) @ e) =
            map_option ((@) (utf8 (unat C))) (spec_percent_decode e)" for e
      by (rule percent_decode_octets [OF oct])
    show "query_safe (concat (map percentOctet (utf8 (unat C))))"
      by (rule query_safe_percent [OF oct])
  qed
qed

lemma round_trip_step:
  assumes enc: "Encode s [] = map_sum id ((@) chunk) (Encode rest [])"
    and pd: "\<And>e. spec_percent_decode (chunk @ e) =
                  map_option ((@) (utf8 cp)) (spec_percent_decode e)"
    and safe: "query_safe chunk"
    and sc: "isScalarValue cp"
    and u16: "UTF16EncodeCodePoint cp @ rest = s"
    and IH: "\<exists>e bs cps. Encode rest [] = Inr e \<and> query_safe e \<and> spec_percent_decode e = Some bs
               \<and> spec_utf8_decode bs = Some cps \<and> concat (map UTF16EncodeCodePoint cps) = rest"
  shows "\<exists>e bs cps. Encode s [] = Inr e \<and> query_safe e \<and> spec_percent_decode e = Some bs
           \<and> spec_utf8_decode bs = Some cps \<and> concat (map UTF16EncodeCodePoint cps) = s"
proof -
  from IH obtain e bs cps where e: "Encode rest [] = Inr e" and se: "query_safe e"
    and b: "spec_percent_decode e = Some bs" and c: "spec_utf8_decode bs = Some cps"
    and r: "concat (map UTF16EncodeCodePoint cps) = rest"
    by blast
  have 1: "Encode s [] = Inr (chunk @ e)"
    using enc e by simp
  have 2: "query_safe (chunk @ e)"
    using safe se by (simp add: query_safe_def)
  have 3: "spec_percent_decode (chunk @ e) = Some (utf8 cp @ bs)"
    using pd [of e] b by simp
  have 4: "spec_utf8_decode (utf8 cp @ bs) = Some (cp # cps)"
    using utf8_decode_utf8 [OF sc, of bs] c by simp
  have 5: "concat (map UTF16EncodeCodePoint (cp # cps)) = s"
    using r u16 by simp
  from 1 2 3 4 5 show ?thesis by blast
qed

lemma Encode_round_trip:
  assumes "isWellFormed s"
  shows "\<exists>e bs cps. Encode s [] = Inr e \<and> query_safe e \<and> spec_percent_decode e = Some bs
           \<and> spec_utf8_decode bs = Some cps \<and> concat (map UTF16EncodeCodePoint cps) = s"
  using assms
proof (induction s rule: isWellFormed.induct)
  case 1
  show ?case by (simp add: query_safe_def)
next
  case (2 c)
  then have nl: "\<not> isLeadingSurrogate c" and nt: "\<not> isTrailingSurrogate c"
    by simp_all
  obtain chunk where ch: "\<And>rest. Encode (c # rest) [] = map_sum id ((@) chunk) (Encode rest [])"
      "\<And>e. spec_percent_decode (chunk @ e) = map_option ((@) (utf8 (unat c))) (spec_percent_decode e)"
      "query_safe chunk"
    using single_unit_chunk [OF nl nt] by blast
  show ?case
  proof (rule round_trip_step [OF ch(1) ch(2) ch(3) single_unit_scalar(1) [OF nl nt]])
    show "UTF16EncodeCodePoint (unat c) @ [] = [c]"
      using single_unit_scalar(2) [OF nl nt] by simp
    show "\<exists>e bs cps. Encode [] [] = Inr e \<and> query_safe e \<and> spec_percent_decode e = Some bs
           \<and> spec_utf8_decode bs = Some cps \<and> concat (map UTF16EncodeCodePoint cps) = []"
      by (simp add: query_safe_def)
  qed
next
  case (3 c d rest)
  show ?case
  proof (cases "isLeadingSurrogate c")
    case True
    with "3.prems" have t: "isTrailingSurrogate d" and wf: "isWellFormed rest"
      by simp_all
    have oct: "\<forall>b \<in> set (utf8 (UTF16SurrogatePairToCodePoint c d)). b < 256"
      using surrogate_pair_scalar(1) [OF True t] utf8_octets [of "UTF16SurrogatePairToCodePoint c d"]
      by (simp add: isScalarValue_def)
    show ?thesis
    proof (rule round_trip_step [OF Encode_pair [OF True t] percent_decode_octets [OF oct]
          query_safe_percent [OF oct] surrogate_pair_scalar(1) [OF True t]])
      show "UTF16EncodeCodePoint (UTF16SurrogatePairToCodePoint c d) @ rest = c # d # rest"
        using surrogate_pair_scalar(2) [OF True t] by simp
      show "\<exists>e bs cps. Encode rest [] = Inr e \<and> query_safe e \<and> spec_percent_decode e = Some bs
           \<and> spec_utf8_decode bs = Some cps \<and> concat (map UTF16EncodeCodePoint cps) = rest"
        using "3.IH"(1) [OF True] wf by blast
    qed
  next
    case nl: False
    with "3.prems" have nt: "\<not> isTrailingSurrogate c" and wf: "isWellFormed (d # rest)"
      by simp_all
    obtain chunk where ch: "\<And>rest. Encode (c # rest) [] = map_sum id ((@) chunk) (Encode rest [])"
        "\<And>e. spec_percent_decode (chunk @ e) = map_option ((@) (utf8 (unat c))) (spec_percent_decode e)"
        "query_safe chunk"
      using single_unit_chunk [OF nl nt] by blast
    show ?thesis
    proof (rule round_trip_step [OF ch(1) ch(2) ch(3) single_unit_scalar(1) [OF nl nt]])
      show "UTF16EncodeCodePoint (unat c) @ d # rest = c # d # rest"
        using single_unit_scalar(2) [OF nl nt] by simp
      show "\<exists>e bs cps. Encode (d # rest) [] = Inr e \<and> query_safe e \<and> spec_percent_decode e = Some bs
           \<and> spec_utf8_decode bs = Some cps \<and> concat (map UTF16EncodeCodePoint cps) = d # rest"
        using "3.IH"(2) [OF nl] wf by blast
    qed
  qed
qed

lemma split_on_absent:
  assumes "sep \<notin> set xs"
  shows "split_on sep xs = [xs]"
  using assms by (induction xs) auto

lemma query_param_of_target:
  assumes "query_safe e"
  shows "spec_query_param (js ''url'') (js ''https://curaq.pages.dev/share?url='' @ e) = Some e"
proof -
  have h: "\<forall>x \<in> set e. x \<noteq> 0x23" and a: "0x26 \<notin> set e"
    using assms by (auto simp: query_safe_def)
  have tw: "takeWhile (\<lambda>c. c \<noteq> 0x23) e = e"
    using h by simp
  have q: "spec_url_query (js ''https://curaq.pages.dev/share?url='' @ e) = js ''url='' @ e"
    by (simp add: spec_url_query_def js_def tw)
  have "0x26 \<notin> set (js ''url='' @ e)"
    using a by (simp add: js_def)
  then have s: "split_on 0x26 (js ''url='' @ e) = [js ''url='' @ e]"
    by (rule split_on_absent)
  show ?thesis
    unfolding spec_query_param_def q by (simp add: s) (simp add: js_def)
qed

lemma Encode_append:
  assumes "\<not> isTrailingSurrogate c"
  shows "Encode (xs @ c # ys) [] =
           (case Encode xs [] of
              Inl e \<Rightarrow> Inl e
            | Inr a \<Rightarrow> map_sum id ((@) a) (Encode (c # ys) []))"
proof (induction xs rule: isWellFormed.induct)
  case 1
  show ?case by (cases "Encode (c # ys) []") simp_all
next
  case (2 x)
  show ?case
  proof (cases "isLeadingSurrogate x")
    case True
    then show ?thesis
      using assms by (simp add: Encode_lone_lead Encode_lone_lead_end)
  next
    case nl: False
    show ?thesis
    proof (cases "isTrailingSurrogate x")
      case True
      then show ?thesis by (simp add: Encode_lone_trail)
    next
      case False
      obtain chunk where
        ch: "\<And>rest. Encode (x # rest) [] = map_sum id ((@) chunk) (Encode rest [])"
        using single_unit_chunk [OF nl False] by blast
      show ?thesis
        by (cases "Encode (c # ys) []") (simp_all add: ch)
    qed
  qed
next
  case (3 x y rest)
  show ?case
  proof (cases "isLeadingSurrogate x")
    case True
    show ?thesis
    proof (cases "isTrailingSurrogate y")
      case t: True
      show ?thesis
        using "3.IH"(1) [OF True]
        by (cases "Encode rest []"; cases "Encode (c # ys) []")
           (simp_all add: Encode_pair [OF True t])
    next
      case False
      then show ?thesis
        by (simp add: Encode_lone_lead [OF True])
    qed
  next
    case nl: False
    show ?thesis
    proof (cases "isTrailingSurrogate x")
      case True
      then show ?thesis by (simp add: Encode_lone_trail)
    next
      case False
      obtain chunk where
        ch: "\<And>rest. Encode (x # rest) [] = map_sum id ((@) chunk) (Encode rest [])"
        using single_unit_chunk [OF nl False] by blast
      show ?thesis
        using "3.IH"(2) [OF nl]
        by (cases "Encode (y # rest) []"; cases "Encode (c # ys) []") (simp_all add: ch)
    qed
  qed
qed

lemma target_round_trip:
  assumes "isWellFormed u"
  shows "\<exists>e. encodeURIComponent u = Inr e \<and>
           spec_shared_url (js ''https://curaq.pages.dev/share?url='' @ e) = Some u"
proof -
  obtain e bs cps where "Encode u [] = Inr e" "query_safe e" "spec_percent_decode e = Some bs"
    "spec_utf8_decode bs = Some cps" "concat (map UTF16EncodeCodePoint cps) = u"
    using Encode_round_trip [OF assms] by blast
  then show ?thesis
    by (simp add: encodeURIComponent_def spec_shared_url_def query_param_of_target
        spec_decode_component_def)
qed

section \<open>The claims\<close>

lemmas enc_defs = encodeURIComponent_def Encode.simps(2) js_def alwaysUnescaped_def CodePointAt_def
  isLeadingSurrogate_def isTrailingSurrogate_def utf8_def percentOctet_def hexDigit_def
  UTF16SurrogatePairToCodePoint_def

lemmas handler_defs = click_handler_def share_tab_def first_of_def truthy_url_def Let_def

lemma handler_on_address:
  assumes "tabs_query h = Inr (t # ts)" and "url t = Some u" and "u \<noteq> []"
    and "encodeURIComponent u = Inr e"
  shows "snd (click_handler h) = [js ''https://curaq.pages.dev/share?url='' @ e]"
  using assms by (simp add: handler_defs)

lemma at_most_one_request: "length (snd (click_handler h)) \<le> 1"
  by (auto simp: handler_defs split: sum.splits option.splits)

lemma button_click_runs_handler:
  assumes "getElementById doc ''share-btn'' = Some el" and "listeners el = []"
  shows "\<exists>doc'. main_script doc = Inr doc' \<and> click doc' ''share-btn'' h = snd (click_handler h)"
  using assms by (simp add: main_script_def click_def addEventListener_def getElementById_def)

lemma reserved_props:
  assumes "c \<in> set (js '':/?#[]@$&+,;= '')"
  shows "c \<notin> set alwaysUnescaped" and "\<not> isLeadingSurrogate c" and "\<not> isTrailingSurrogate c"
    and "unat c < 0x80"
  using assms
  unfolding alwaysUnescaped_def js_def isLeadingSurrogate_def isTrailingSurrogate_def
  by auto

lemma kept_props:
  assumes "c \<in> set (js ''ABCDEFGHIJKLMNOPQRSTUVWXYZabcdefghijklmnopqrstuvwxyz0123456789-_.~!*()'' @ [0x27])"
  shows "c \<in> set alwaysUnescaped"
  using assms unfolding alwaysUnescaped_def js_def by auto

lemma splice_Encode:
  assumes "\<not> isTrailingSurrogate c"
    and "\<And>rest. Encode (c # rest) [] = map_sum id ((@) m) (Encode rest [])"
  shows "encodeURIComponent (xs @ c # ys) =
           splice (encodeURIComponent xs) m (encodeURIComponent ys)"
  unfolding encodeURIComponent_def splice_def Encode_append [OF assms(1)] assms(2)
  by (cases "Encode xs []"; cases "Encode ys []") simp_all

text \<open>
  Claim C1, as the code has it: for every active tab whose url is a non-empty string \<open>u\<close>
  with no unpaired surrogate, \<open>encodeURIComponent u\<close> returns a value, and the handler
  asks the host for exactly one new tab, at the literal prefix
  \<open>https://curaq.pages.dev/share?url=\<close> followed by that value.
\<close>

theorem well_formed_address_opens_target:
  assumes "tabs_query h = Inr (t # ts)" and "url t = Some u" and "u \<noteq> []"
    and "isWellFormed u"
  shows "\<exists>encodedUrl. encodeURIComponent u = Inr encodedUrl \<and>
           snd (click_handler h) = [js ''https://curaq.pages.dev/share?url='' @ encodedUrl]"
proof -
  obtain e where e: "encodeURIComponent u = Inr e"
    using Encode_succeeds_iff [of u] assms(4) by (auto simp: encodeURIComponent_def)
  with handler_on_address [OF assms(1-3)] show ?thesis by blast
qed

text \<open>
  The theorem of C1 at the first scenario of the specification: the active tab is at
  \<open>https://example.com/path?a=1&b=2\<close>.
\<close>

theorem well_formed_address_opens_target_witness:
  "isWellFormed (js ''https://example.com/path?a=1&b=2'') \<and>
   (\<exists>encodedUrl. encodeURIComponent (js ''https://example.com/path?a=1&b=2'') = Inr encodedUrl \<and>
      snd (click_handler
            \<lparr>tabs_query = Inr [\<lparr>url = Some (js ''https://example.com/path?a=1&b=2'')\<rparr>],
             tabs_create = (\<lambda>_. None)\<rparr>)
        = [js ''https://curaq.pages.dev/share?url='' @ encodedUrl])"
  using well_formed_address_opens_target
    [of "\<lparr>tabs_query = Inr [\<lparr>url = Some (js ''https://example.com/path?a=1&b=2'')\<rparr>],
          tabs_create = (\<lambda>_. None)\<rparr>"
        "\<lparr>url = Some (js ''https://example.com/path?a=1&b=2'')\<rparr>" "[]"
        "js ''https://example.com/path?a=1&b=2''"]
  by (simp add: js_def isLeadingSurrogate_def isTrailingSurrogate_def)

text \<open>
  Claim C1 as stated fails where the address has an unpaired surrogate: for the non-empty
  address made of the single code unit \<open>0xD800\<close>, \<open>encodeURIComponent\<close> throws, the
  handler's promise rejects and no tab is requested.
\<close>

theorem unpaired_surrogate_opens_nothing:
  "click_handler \<lparr>tabs_query = Inr [\<lparr>url = Some [0xD800]\<rparr>], tabs_create = (\<lambda>_. None)\<rparr>
     = (Rejected URIError, [])"
  by (simp add: handler_defs enc_defs)

text \<open>
  Claim C2, as the code has it: wherever it stands in the address, each of the characters
  \<open>: / ? # [ ] @ $ & + , ; =\<close> and the space is replaced by \<open>%\<close> and the two uppercase
  hexadecimal digits of its code, and each of \<open>A-Z a-z 0-9 - _ . ~\<close> and of
  \<open>! * ( ) '\<close> is copied unchanged.
\<close>

theorem escaped_and_kept_characters:
  "(c \<in> set (js '':/?#[]@$&+,;= '') \<longrightarrow>
      encodeURIComponent (xs @ c # ys) =
        splice (encodeURIComponent xs) (percentOctet (unat c)) (encodeURIComponent ys)) \<and>
   (c \<in> set (js ''ABCDEFGHIJKLMNOPQRSTUVWXYZabcdefghijklmnopqrstuvwxyz0123456789-_.~!*()'' @ [0x27]) \<longrightarrow>
      encodeURIComponent (xs @ c # ys) =
        splice (encodeURIComponent xs) [c] (encodeURIComponent ys))"
proof (intro conjI impI)
  assume r: "c \<in> set (js '':/?#[]@$&+,;= '')"
  have "utf8 (unat c) = [unat c]"
    using reserved_props(4) [OF r] by (simp add: utf8_def)
  then have "Encode (c # rest) [] = map_sum id ((@) (percentOctet (unat c))) (Encode rest [])"
    for rest
    using Encode_single [OF reserved_props(1-3) [OF r], of rest] by simp
  then show "encodeURIComponent (xs @ c # ys) =
      splice (encodeURIComponent xs) (percentOctet (unat c)) (encodeURIComponent ys)"
    by (rule splice_Encode [OF reserved_props(3) [OF r]])
next
  assume k: "c \<in> set (js ''ABCDEFGHIJKLMNOPQRSTUVWXYZabcdefghijklmnopqrstuvwxyz0123456789-_.~!*()'' @ [0x27])"
  have u: "c \<in> set alwaysUnescaped"
    using k by (rule kept_props)
  have "Encode (c # rest) [] = map_sum id ((@) [c]) (Encode rest [])" for rest
    by (cases "Encode rest []") (simp_all add: Encode_unescaped [OF u])
  then show "encodeURIComponent (xs @ c # ys) =
      splice (encodeURIComponent xs) [c] (encodeURIComponent ys)"
    by (rule splice_Encode [OF unescaped_props(8) [OF u]])
qed

text \<open>
  The theorem of C2 at \<open>a?b\<close> (the \<open>?\<close> is escaped as \<open>%3F\<close>) and at \<open>a~b\<close> and \<open>a!b\<close>
  (both copied).
\<close>

theorem escaped_and_kept_characters_witness:
  "of_char CHR ''?'' \<in> set (js '':/?#[]@$&+,;= '') \<and>
   encodeURIComponent (js ''a?b'') = Inr (js ''a%3Fb'') \<and>
   of_char CHR ''~'' \<in> set (js ''ABCDEFGHIJKLMNOPQRSTUVWXYZabcdefghijklmnopqrstuvwxyz0123456789-_.~!*()'' @ [0x27]) \<and>
   encodeURIComponent (js ''a~b'') = Inr (js ''a~b'') \<and>
   encodeURIComponent (js ''a!b'') = Inr (js ''a!b'')"
  using escaped_and_kept_characters [of "of_char CHR ''?''" "js ''a''" "js ''b''"]
    escaped_and_kept_characters [of "of_char CHR ''~''" "js ''a''" "js ''b''"]
    escaped_and_kept_characters [of "of_char CHR ''!''" "js ''a''" "js ''b''"]
  by (simp add: splice_def enc_defs)

text \<open>
  Claim C2 as stated fails on \<open>! * ( ) '\<close>: the claim has them escaped, and
  \<open>encodeURIComponent\<close> returns them as they are.
\<close>

theorem marks_not_escaped:
  "encodeURIComponent (js ''!*()'' @ [0x27]) = Inr (js ''!*()'' @ [0x27])"
  by (simp add: enc_defs)

text \<open>
  Claim C3, as the code has it: for every tab address \<open>u\<close> that is non-empty and has no
  unpaired surrogate, the handler requests one target address, and percent-decoding
  what its \<open>url\<close> query parameter holds yields exactly \<open>u\<close>.
\<close>

theorem well_formed_address_round_trip:
  assumes "tabs_query h = Inr (t # ts)" and "url t = Some u" and "u \<noteq> []"
    and "isWellFormed u"
  shows "\<exists>target. snd (click_handler h) = [target] \<and> spec_shared_url target = Some u"
proof -
  obtain e where e: "encodeURIComponent u = Inr e"
    and r: "spec_shared_url (js ''https://curaq.pages.dev/share?url='' @ e) = Some u"
    using target_round_trip [OF assms(4)] by blast
  from handler_on_address [OF assms(1-3) e] r show ?thesis by simp
qed

text \<open>
  The theorem of C3 at an address with \<open>/\<close>, a space, \<open>?\<close>, \<open>&\<close>, \<open>#\<close>, a character
  beyond ASCII (\<open>0x65E5\<close>) and one beyond the basic plane (the pair \<open>0xD83D 0xDE00\<close>).
\<close>

theorem well_formed_address_round_trip_witness:
  "isWellFormed (js ''https://a.test/p q?x=1&y=2#f'' @ [0x65E5, 0xD83D, 0xDE00]) \<and>
   (\<exists>target.
      snd (click_handler
            \<lparr>tabs_query = Inr [\<lparr>url = Some (js ''https://a.test/p q?x=1&y=2#f'' @ [0x65E5, 0xD83D, 0xDE00])\<rparr>],
             tabs_create = (\<lambda>_. None)\<rparr>) = [target] \<and>
      spec_shared_url target = Some (js ''https://a.test/p q?x=1&y=2#f'' @ [0x65E5, 0xD83D, 0xDE00]))"
  using well_formed_address_round_trip
    [of "\<lparr>tabs_query = Inr [\<lparr>url = Some (js ''https://a.test/p q?x=1&y=2#f'' @ [0x65E5, 0xD83D, 0xDE00])\<rparr>],
          tabs_create = (\<lambda>_. None)\<rparr>"
        "\<lparr>url = Some (js ''https://a.test/p q?x=1&y=2#f'' @ [0x65E5, 0xD83D, 0xDE00])\<rparr>" "[]"
        "js ''https://a.test/p q?x=1&y=2#f'' @ [0x65E5, 0xD83D, 0xDE00]"]
  by (simp add: js_def isLeadingSurrogate_def isTrailingSurrogate_def)

text \<open>
  Claim C3 as stated fails where the address has an unpaired surrogate: for the address
  \<open>a\<close> followed by the lone leading surrogate \<open>0xD83D\<close> no target address is produced,
  so nothing decodes to the address.
\<close>

theorem unpaired_surrogate_no_round_trip:
  "map spec_shared_url
     (snd (click_handler
            \<lparr>tabs_query = Inr [\<lparr>url = Some (js ''a'' @ [0xD83D])\<rparr>],
             tabs_create = (\<lambda>_. None)\<rparr>))
   \<noteq> [Some (js ''a'' @ [0xD83D])]"
  by (simp add: handler_defs enc_defs)

text \<open>
  Claim C4: whenever the query returns no tab, or a tab whose address is absent or the
  empty string, the handler issues no tab-creation request and its promise resolves.
\<close>

theorem no_request_without_address:
  assumes "tabs_query h = Inr tabs"
    and "tabs = [] \<or> (\<exists>t ts. tabs = t # ts \<and> (url t = None \<or> url t = Some []))"
  shows "click_handler h = (Resolved, [])"
  using assms by (auto simp: handler_defs)

text \<open>The theorem of C4 at an empty list, at a tab with no address and at a tab with the
  empty address.\<close>

theorem no_request_without_address_witness:
  "click_handler \<lparr>tabs_query = Inr [], tabs_create = (\<lambda>_. None)\<rparr> = (Resolved, []) \<and>
   click_handler \<lparr>tabs_query = Inr [\<lparr>url = None\<rparr>], tabs_create = (\<lambda>_. None)\<rparr> = (Resolved, []) \<and>
   click_handler \<lparr>tabs_query = Inr [\<lparr>url = Some []\<rparr>], tabs_create = (\<lambda>_. None)\<rparr> = (Resolved, [])"
  using no_request_without_address [of "\<lparr>tabs_query = Inr [], tabs_create = (\<lambda>_. None)\<rparr>" "[]"]
    no_request_without_address
      [of "\<lparr>tabs_query = Inr [\<lparr>url = None\<rparr>], tabs_create = (\<lambda>_. None)\<rparr>" "[\<lparr>url = None\<rparr>]"]
    no_request_without_address
      [of "\<lparr>tabs_query = Inr [\<lparr>url = Some []\<rparr>], tabs_create = (\<lambda>_. None)\<rparr>" "[\<lparr>url = Some []\<rparr>]"]
  by simp




text \<open>
  Claim C6: if the host query for the active tab rejects, the handler issues no
  tab-creation request and its promise rejects with the same error.
\<close>

theorem query_rejection_opens_nothing:
  assumes "tabs_query h = Inl e"
  shows "click_handler h = (Rejected e, [])"
  using assms by (simp add: click_handler_def)

text \<open>The theorem of C6 at a host whose query rejects.\<close>

theorem query_rejection_opens_nothing_witness:
  "click_handler \<lparr>tabs_query = Inl HostError, tabs_create = (\<lambda>_. None)\<rparr>
     = (Rejected HostError, [])"
  using query_rejection_opens_nothing
    [of "\<lparr>tabs_query = Inl HostError, tabs_create = (\<lambda>_. None)\<rparr>" HostError]
  by simp

text \<open>
  Claim C7: when the active tab's address is \<open>https://example.com/\<close> followed by the
  three code units \<open>0x65E5 0x672C 0x8A9E\<close>, the handler requests exactly one new tab,
  at \<open>https://curaq.pages.dev/share?url=https%3A%2F%2Fexample.com%2F%E6%97%A5%E6%9C%AC%E8%AA%9E\<close>,
  whatever else the host does.
\<close>

theorem japanese_path_target:
  "snd (click_handler
         (h\<lparr>tabs_query :=
              Inr [\<lparr>url = Some (js ''https://example.com/'' @ [0x65E5, 0x672C, 0x8A9E])\<rparr>]\<rparr>))
   = [js ''https://curaq.pages.dev/share?url=https%3A%2F%2Fexample.com%2F%E6%97%A5%E6%9C%AC%E8%AA%9E'']"
  by (simp add: handler_defs enc_defs split: option.split)

text \<open>
  Claim C8: two invocations that observe the same answer of the tab query issue the same
  tab-creation requests, whatever else differs in what they observe of the host; in
  particular two invocations on a tab at \<open>https://a.test/\<close> each request
  \<open>https://curaq.pages.dev/share?url=https%3A%2F%2Fa.test%2F\<close>.
\<close>

theorem requests_depend_on_query_only:
  "(tabs_query h1 = tabs_query h2 \<longrightarrow> snd (click_handler h1) = snd (click_handler h2)) \<and>
   (tabs_query h1 = Inr [\<lparr>url = Some (js ''https://a.test/'')\<rparr>] \<and>
    tabs_query h2 = Inr [\<lparr>url = Some (js ''https://a.test/'')\<rparr>] \<longrightarrow>
      snd (click_handler h1) = [js ''https://curaq.pages.dev/share?url=https%3A%2F%2Fa.test%2F''] \<and>
      snd (click_handler h2) = [js ''https://curaq.pages.dev/share?url=https%3A%2F%2Fa.test%2F''])"
proof -
  have det: "snd (click_handler h1) = snd (click_handler h2)" if "tabs_query h1 = tabs_query h2"
    using that
    by (auto simp: click_handler_def share_tab_def Let_def split: sum.splits option.splits)
  have conc: "snd (click_handler h) = [js ''https://curaq.pages.dev/share?url=https%3A%2F%2Fa.test%2F'']"
    if "tabs_query h = Inr [\<lparr>url = Some (js ''https://a.test/'')\<rparr>]" for h
    using that
    by (simp add: handler_defs enc_defs split: option.split)
  show ?thesis using det conc by blast
qed

text \<open>The theorem of C8 at two hosts that answer the query alike, one accepting and one
  rejecting the creation of a tab.\<close>

theorem requests_depend_on_query_only_witness:
  "tabs_query \<lparr>tabs_query = Inr [\<lparr>url = Some (js ''https://a.test/'')\<rparr>], tabs_create = (\<lambda>_. None)\<rparr>
     = tabs_query \<lparr>tabs_query = Inr [\<lparr>url = Some (js ''https://a.test/'')\<rparr>],
                   tabs_create = (\<lambda>_. Some HostError)\<rparr> \<and>
   snd (click_handler \<lparr>tabs_query = Inr [\<lparr>url = Some (js ''https://a.test/'')\<rparr>],
                       tabs_create = (\<lambda>_. None)\<rparr>)
     = [js ''https://curaq.pages.dev/share?url=https%3A%2F%2Fa.test%2F''] \<and>
   snd (click_handler \<lparr>tabs_query = Inr [\<lparr>url = Some (js ''https://a.test/'')\<rparr>],
                       tabs_create = (\<lambda>_. Some HostError)\<rparr>)
     = [js ''https://curaq.pages.dev/share?url=https%3A%2F%2Fa.test%2F'']"
  using requests_depend_on_query_only
    [of "\<lparr>tabs_query = Inr [\<lparr>url = Some (js ''https://a.test/'')\<rparr>], tabs_create = (\<lambda>_. None)\<rparr>"
        "\<lparr>tabs_query = Inr [\<lparr>url = Some (js ''https://a.test/'')\<rparr>],
          tabs_create = (\<lambda>_. Some HostError)\<rparr>"]
  by simp

text \<open>
  Claim C9: for every list of tabs returned by the query, the handler behaves as on the
  list's first element alone (the tabs after it are ignored), and on an empty list it
  behaves exactly as on an absent tab: it resolves and requests nothing.
\<close>

theorem only_first_tab_matters:
  "click_handler (h\<lparr>tabs_query := Inr (t # ts)\<rparr>) = click_handler (h\<lparr>tabs_query := Inr [t]\<rparr>) \<and>
   click_handler (h\<lparr>tabs_query := Inr (t # ts)\<rparr>) = share_tab h (Some t) \<and>
   click_handler (h\<lparr>tabs_query := Inr []\<rparr>) = share_tab h None \<and>
   share_tab h None = (Resolved, [])"
  by (auto simp: handler_defs split: option.splits sum.splits)

text \<open>
  Claim C10: if the document has no element with id \<open>share-btn\<close> when the script loads,
  the script completes without error and leaves the document as it was, no listener
  added; so, no other listener being registered in the document, no sequence of later
  clicks requests a tab.
\<close>

theorem missing_button_registers_nothing:
  assumes "getElementById doc ''share-btn'' = None"
  shows "main_script doc = Inr doc \<and> (no_listeners doc \<longrightarrow> clicks doc cs = [])"
proof
  show "main_script doc = Inr doc"
    using assms by (simp add: main_script_def)
  show "no_listeners doc \<longrightarrow> clicks doc cs = []"
  proof
    assume n: "no_listeners doc"
    have "click doc i h = []" for i h
      using n by (auto simp: click_def no_listeners_def ran_def split: option.splits)
    then show "clicks doc cs = []"
      by (induction cs) auto
  qed
qed

text \<open>The theorem of C10 at the empty document and two clicks.\<close>

theorem missing_button_registers_nothing_witness:
  "getElementById Map.empty ''share-btn'' = None \<and> no_listeners Map.empty \<and>
   main_script Map.empty = Inr Map.empty \<and>
   clicks Map.empty
     [(''share-btn'', \<lparr>tabs_query = Inr [\<lparr>url = Some (js ''https://a.test/'')\<rparr>],
                       tabs_create = (\<lambda>_. None)\<rparr>),
      (''share-btn'', \<lparr>tabs_query = Inr [\<lparr>url = Some (js ''https://a.test/'')\<rparr>],
                       tabs_create = (\<lambda>_. None)\<rparr>)] = []"
  using missing_button_registers_nothing
    [of Map.empty
        "[(''share-btn'', \<lparr>tabs_query = Inr [\<lparr>url = Some (js ''https://a.test/'')\<rparr>],
                           tabs_create = (\<lambda>_. None)\<rparr>),
          (''share-btn'', \<lparr>tabs_query = Inr [\<lparr>url = Some (js ''https://a.test/'')\<rparr>],
                           tabs_create = (\<lambda>_. None)\<rparr>)]"]
  by (simp add: getElementById_def no_listeners_def)

end
